theory Spec2Isabelle
  imports Main "HOL-Library.AList"
begin

section \<open>Scope-based authorization of jupyterhub/scopes.py\<close>

text \<open>
  A shallow embedding of the module \<^verbatim>\<open>jupyterhub/scopes.py\<close>: the resolver
  \<^verbatim>\<open>get_scopes_for\<close>, the parser \<^verbatim>\<open>parse_scopes\<close>, the check
  \<^verbatim>\<open>_check_scope\<close> with its two helpers, and the decorator \<^verbatim>\<open>needs_scope\<close>
  with its inner \<^verbatim>\<open>_auth_func\<close>. A leading underscore is not part of an Isabelle
  name, so \<^verbatim>\<open>_check_scope\<close> is \<open>check_scope\<close> here, and likewise for the others.
  Calls of \<^verbatim>\<open>app_log.debug\<close> change no result and are left out; the one warning whose
  content the resolver computes is returned beside the result.
\<close>

subsection \<open>Data\<close>

text \<open>
  Exceptions are values. \<open>HTTPError\<close> carries the status code and the message of
  \<^verbatim>\<open>web.HTTPError\<close>; \<open>AttributeError\<close> and \<open>KeyError\<close> carry the name that was
  looked up.
\<close>

datatype error = HTTPError nat string | AttributeError string | KeyError string

text \<open>
  The value stored under a scope name in \<^verbatim>\<open>parsed_scopes\<close> is either the enum member
  \<^verbatim>\<open>Scope.ALL\<close> or a dictionary from filter names to lists of values.
\<close>

type_synonym sub_scope = "string \<rightharpoonup> string list"

datatype scope_grant = Scope_ALL | Filtered sub_scope

type_synonym permission_map = "string \<rightharpoonup> scope_grant"

text \<open>
  The ORM objects the module touches. A token refers to its owner through the fields
  \<^verbatim>\<open>user\<close> and \<^verbatim>\<open>service\<close>, either of which may be \<^verbatim>\<open>None\<close>; they are kept
  here by name. A user found by the handler has a list of groups, each with a name.
\<close>

datatype orm_object =
    User string
  | Service string
  | APIToken string "string option" "string option"

record orm_group =
  g_name :: string

record orm_user =
  u_name :: string
  groups :: "orm_group list"

text \<open>
  What the module reads and writes on a handler: \<^verbatim>\<open>request.path\<close> (absent when the
  attribute lookup raises), \<^verbatim>\<open>__name__\<close> (likewise), the attributes
  \<^verbatim>\<open>raw_scopes\<close> and \<^verbatim>\<open>parsed_scopes\<close> (absent until something sets them), and the
  method \<^verbatim>\<open>find_user\<close>.
\<close>

record handler =
  request_path :: "string option"
  dunder_name :: "string option"
  raw_scopes :: "string set option"
  parsed_scopes :: "permission_map option"
  find_user :: "string \<Rightarrow> orm_user option"

subsection \<open>The resolver\<close>

text \<open>
  \<^verbatim>\<open>owner = orm_object.user or orm_object.service\<close>: the user when there is one, the
  service otherwise (which may be \<^verbatim>\<open>None\<close> too).
\<close>

fun token_owner :: "string option \<Rightarrow> string option \<Rightarrow> orm_object option" where
  "token_owner (Some u) s = Some (User u)"
| "token_owner None (Some s) = Some (Service s)"
| "token_owner None None = None"

text \<open>
  \<^verbatim>\<open>roles.get_scopes_for\<close> belongs to another module and is a parameter. The result
  is the pair of the returned set and of \<^verbatim>\<open>discarded_token_scopes\<close>; the warning is
  logged exactly when the second component is not empty.
\<close>

definition get_scopes_for ::
  "(orm_object option \<Rightarrow> string set) \<Rightarrow> orm_object option \<Rightarrow> string set \<times> string set" where
  "get_scopes_for roles_get_scopes_for orm_object =
     (case orm_object of
        None \<Rightarrow> ({}, {})
      | Some (APIToken t u s) \<Rightarrow>
          (let owner = token_owner u s;
               token_scopes = roles_get_scopes_for (Some (APIToken t u s));
               owner_scopes = roles_get_scopes_for owner;
               token_scopes1 =
                 (if ''all'' \<in> token_scopes then token_scopes \<union> owner_scopes else token_scopes);
               scopes = token_scopes1 \<inter> owner_scopes
           in (scopes, token_scopes1 - scopes))
      | Some other \<Rightarrow> (roles_get_scopes_for (Some other), {}))"

subsection \<open>The parser\<close>

text \<open>
  \<^verbatim>\<open>str.partition(sep)\<close> for a separator of one character: the text before the first
  occurrence, the separator, and the text after it; the whole string and two empty
  strings when the separator does not occur.
\<close>

fun str_partition :: "char \<Rightarrow> string \<Rightarrow> string \<times> string \<times> string" where
  "str_partition sep [] = ([], [], [])"
| "str_partition sep (c # cs) =
     (if c = sep then ([], [sep], cs)
      else (case str_partition sep cs of (before, s, after) \<Rightarrow> (c # before, s, after)))"

text \<open>
  The body of the loop of \<^verbatim>\<open>parse_scopes\<close> for one grant string. The first
  \<open>if\<close> is lines 129-132, the \<open>case\<close> is the test of line 133 with lines 134-137
  under it: the list under \<open>key\<close> is created empty when missing and \<open>val\<close> is appended.
  The lookup of line 133 cannot fail, since \<open>base_scope\<close> was present or has just been
  stored; the branch \<open>None\<close> stands for that \<^verbatim>\<open>KeyError\<close> and is never taken
  (lemma \<open>parse_scope_step_present\<close>).
\<close>

definition parse_scope_step :: "permission_map \<Rightarrow> string \<Rightarrow> permission_map" where
  "parse_scope_step parsed scope =
     (case str_partition CHR ''!'' scope of (base_scope, sep, filter_part) \<Rightarrow>
        (let parsed1 =
               (if filter_part = [] then parsed(base_scope \<mapsto> Scope_ALL)
                else if parsed base_scope = None then parsed(base_scope \<mapsto> Filtered Map.empty)
                else parsed)
         in (case parsed1 base_scope of
               None \<Rightarrow> parsed1
             | Some Scope_ALL \<Rightarrow> parsed1
             | Some (Filtered d) \<Rightarrow>
                 (case str_partition CHR ''='' filter_part of (key, sep1, val) \<Rightarrow>
                    parsed1(base_scope \<mapsto>
                      Filtered (d(key \<mapsto> (case d key of None \<Rightarrow> [] | Some vs \<Rightarrow> vs) @ [val])))))))"

definition parse_scopes :: "string list \<Rightarrow> permission_map" where
  "parse_scopes scope_list = foldl parse_scope_step Map.empty scope_list"

text \<open>A grant string for the name \<open>n\<close> with no filter suffix: the test of line 129.\<close>

definition unfiltered_grant :: "string \<Rightarrow> string \<Rightarrow> bool" where
  "unfiltered_grant n scope =
     (case str_partition CHR ''!'' scope of (base_scope, sep, filter_part) \<Rightarrow>
        base_scope = n \<and> filter_part = [])"

subsection \<open>The check\<close>

definition needs_scope_expansion :: "string \<Rightarrow> string \<Rightarrow> sub_scope \<Rightarrow> bool" where
  "needs_scope_expansion filter_name filter_value sub =
     (if \<not> (filter_name = ''user'' \<and> sub ''group'' \<noteq> None) then False
      else (case sub ''user'' of
              Some users \<Rightarrow> filter_value \<notin> set users
            | None \<Rightarrow> True))"

definition not_found :: error where
  "not_found = HTTPError 404 ''No access to resources or resources not found''"

definition check_user_in_expanded_scope ::
  "handler \<Rightarrow> string \<Rightarrow> string list \<Rightarrow> error + bool" where
  "check_user_in_expanded_scope h user_name scope_group_names =
     (case find_user h user_name of
        None \<Rightarrow> Inl not_found
      | Some user \<Rightarrow>
          Inr (set scope_group_names \<inter> set (map g_name (groups user)) \<noteq> {}))"

text \<open>
  The loop of lines 88-98 over the items of \<^verbatim>\<open>kwargs\<close>, in the dictionary's order,
  and the \<^verbatim>\<open>raise\<close> of line 102 when the items are exhausted.
\<close>

fun check_filters :: "handler \<Rightarrow> sub_scope \<Rightarrow> (string \<times> string) list \<Rightarrow> error + bool" where
  "check_filters h sub [] = Inl not_found"
| "check_filters h sub ((filter_name, filter_value) # rest) =
     (if (case sub filter_name of Some vs \<Rightarrow> filter_value \<in> set vs | None \<Rightarrow> False)
      then Inr True
      else if needs_scope_expansion filter_name filter_value sub then
        (case sub ''group'' of
           None \<Rightarrow> Inl (KeyError ''group'')
         | Some group_names \<Rightarrow>
             (case check_user_in_expanded_scope h filter_value group_names of
                Inl e \<Rightarrow> Inl e
              | Inr b \<Rightarrow> if b then Inr True else check_filters h sub rest))
      else check_filters h sub rest)"

text \<open>
  Lines 72-73: when both \<^verbatim>\<open>user\<close> and \<^verbatim>\<open>server\<close> are keys, the value under
  \<^verbatim>\<open>server\<close> is replaced, in place, by \<^verbatim>\<open>"{}/{}".format(user, server)\<close>.
  \<^verbatim>\<open>kwargs\<close> is the dictionary Python builds afresh from \<^verbatim>\<open>**s_kwargs\<close> at each
  call, so the caller's dictionary is not changed.
\<close>

definition compose_server :: "(string \<times> string) list \<Rightarrow> (string \<times> string) list" where
  "compose_server kwargs =
     (case (map_of kwargs ''user'', map_of kwargs ''server'') of
        (Some u, Some s) \<Rightarrow> AList.update ''server'' (u @ ''/'' @ s) kwargs
      | other \<Rightarrow> kwargs)"

definition check_scope :: "handler \<Rightarrow> string \<Rightarrow> (string \<times> string) list \<Rightarrow> error + bool" where
  "check_scope api_handler req_scope kwargs =
     (case parsed_scopes api_handler of
        None \<Rightarrow> Inl (AttributeError ''parsed_scopes'')
      | Some parsed \<Rightarrow>
          (case parsed req_scope of
             None \<Rightarrow> Inr False
           | Some Scope_ALL \<Rightarrow> Inr True
           | Some (Filtered sub) \<Rightarrow>
               (if compose_server kwargs = [] then Inr True
                else check_filters api_handler sub (compose_server kwargs))))"

subsection \<open>The decorator\<close>

text \<open>
  Lines 155-160. The loop runs over a set literal, whose iteration order Python does not
  fix; the order is the parameter \<open>resources\<close> (for the code, an arrangement of
  \<open>resource_names\<close>). \<open>arguments\<close> are the bound arguments after
  \<^verbatim>\<open>apply_defaults\<close>, by parameter name, with strings as values; a call that
  \<^verbatim>\<open>sig.bind\<close> rejects raises before any scope is looked at and has no bound
  arguments to give.
\<close>

definition resource_names :: "string list" where
  "resource_names = [''user'', ''server'', ''group'', ''service'']"

definition build_s_kwargs :: "string list \<Rightarrow> (string \<rightharpoonup> string) \<Rightarrow> (string \<times> string) list" where
  "build_s_kwargs resources arguments =
     foldl (\<lambda>s_kwargs resource.
              (case arguments (resource @ ''_name'') of
                 Some resource_value \<Rightarrow> AList.update resource resource_value s_kwargs
               | None \<Rightarrow> s_kwargs))
       [] resources"

text \<open>Lines 161-163: every scope is checked, and an exception leaves the loop.\<close>

fun check_scopes_loop ::
  "handler \<Rightarrow> (string \<times> string) list \<Rightarrow> string list \<Rightarrow> bool \<Rightarrow> error + bool" where
  "check_scopes_loop h s_kwargs [] has_access = Inr has_access"
| "check_scopes_loop h s_kwargs (scope # scopes) has_access =
     (case check_scope h scope s_kwargs of
        Inl e \<Rightarrow> Inl e
      | Inr b \<Rightarrow> check_scopes_loop h s_kwargs scopes (has_access \<or> b))"

fun join_str :: "string \<Rightarrow> string list \<Rightarrow> string" where
  "join_str sep [] = []"
| "join_str sep [x] = x"
| "join_str sep (x # y # ys) = x @ sep @ join_str sep (y # ys)"

definition not_authorized :: "string list \<Rightarrow> error" where
  "not_authorized scopes =
     HTTPError 403
       (''Action is not authorized with current scopes; requires any of ['' @
        join_str '', '' scopes @ '']'')"

text \<open>Lines 151-153: both attributes are set when \<^verbatim>\<open>raw_scopes\<close> is missing.\<close>

definition load_scopes :: "handler \<Rightarrow> handler" where
  "load_scopes self =
     (if raw_scopes self = None
      then self\<lparr>raw_scopes := Some {}, parsed_scopes := Some Map.empty\<rparr>
      else self)"

text \<open>
  \<^verbatim>\<open>_auth_func\<close>. The wrapped \<open>func\<close> takes the handler and the bound arguments and
  gives its outcome and the handler it leaves; the wrapper's outcome is paired with the
  handler in the same way. On refusal the end point is read for the warning first:
  \<^verbatim>\<open>self.request.path\<close>, and \<^verbatim>\<open>self.__name__\<close> when that raises
  \<^verbatim>\<open>AttributeError\<close>, which raises in turn when the handler has no such attribute.
\<close>

definition auth_func ::
  "string list \<Rightarrow> (handler \<Rightarrow> (string \<rightharpoonup> string) \<Rightarrow> (error + 'r) \<times> handler) \<Rightarrow>
   string list \<Rightarrow> handler \<Rightarrow> (string \<rightharpoonup> string) \<Rightarrow> (error + 'r) \<times> handler" where
  "auth_func scopes func resources self arguments =
     (let self1 = load_scopes self;
          s_kwargs = build_s_kwargs resources arguments
      in (case check_scopes_loop self1 s_kwargs scopes False of
            Inl e \<Rightarrow> (Inl e, self1)
          | Inr has_access \<Rightarrow>
              if has_access then func self1 arguments
              else (case request_path self1 of
                      Some end_point \<Rightarrow> (Inl (not_authorized scopes), self1)
                    | None \<Rightarrow>
                        (case dunder_name self1 of
                           Some end_point \<Rightarrow> (Inl (not_authorized scopes), self1)
                         | None \<Rightarrow> (Inl (AttributeError ''__name__''), self1)))))"

subsection \<open>Predicates and fixtures for the statements\<close>

text \<open>
  The two ways in which one item of \<^verbatim>\<open>kwargs\<close> lets \<^verbatim>\<open>_check_scope\<close> return
  \<^verbatim>\<open>True\<close>: the test of line 89, and the test of line 94 followed by a successful
  lookup of line 96.
\<close>

definition filter_matches :: "sub_scope \<Rightarrow> string \<times> string \<Rightarrow> bool" where
  "filter_matches sub item =
     (case sub (fst item) of Some vs \<Rightarrow> snd item \<in> set vs | None \<Rightarrow> False)"

definition group_expansion_permits :: "handler \<Rightarrow> sub_scope \<Rightarrow> string \<times> string \<Rightarrow> bool" where
  "group_expansion_permits h sub item =
     (needs_scope_expansion (fst item) (snd item) sub \<and>
      (case sub ''group'' of
         Some group_names \<Rightarrow> check_user_in_expanded_scope h (snd item) group_names = Inr True
       | None \<Rightarrow> False))"

definition entry_permits :: "handler \<Rightarrow> sub_scope \<Rightarrow> string \<times> string \<Rightarrow> bool" where
  "entry_permits h sub item = (filter_matches sub item \<or> group_expansion_permits h sub item)"

text \<open>
  A handler as a test would set it up: a request path, the raw scopes and their parse
  stored on it, and a table of users for \<^verbatim>\<open>find_user\<close>. \<open>fresh_handler\<close> is the
  same handler before anything stored scopes on it.
\<close>

definition mock_api_handler :: "string list \<Rightarrow> (string \<times> orm_user) list \<Rightarrow> handler" where
  "mock_api_handler scope_list users =
     \<lparr>request_path = Some ''/path'', dunder_name = None,
      raw_scopes = Some (set scope_list), parsed_scopes = Some (parse_scopes scope_list),
      find_user = map_of users\<rparr>"

definition fresh_handler :: handler where
  "fresh_handler =
     \<lparr>request_path = Some ''/path'', dunder_name = None,
      raw_scopes = None, parsed_scopes = None, find_user = (\<lambda>name. None)\<rparr>"

text \<open>
  An accessor in the place of \<^verbatim>\<open>roles.get_scopes_for\<close>, for concrete principals:
  three tokens told apart by their first field, users, services, and no principal.
\<close>

definition example_roles :: "orm_object option \<Rightarrow> string set" where
  "example_roles obj =
     (case obj of
        None \<Rightarrow> {}
      | Some (User n) \<Rightarrow> {''users'', ''read:users''}
      | Some (Service n) \<Rightarrow> {''services''}
      | Some (APIToken t u s) \<Rightarrow>
          (if t = ''inherit'' then {''all''}
           else if t = ''reader'' then {''read:users'', ''admin:users''}
           else {''groups''}))"

text \<open>A wrapped operation that returns \<^verbatim>\<open>True\<close> and leaves the handler as it is.\<close>

definition thing :: "handler \<Rightarrow> (string \<rightharpoonup> string) \<Rightarrow> (error + bool) \<times> handler" where
  "thing self arguments = (Inr True, self)"

section \<open>The parser\<close>

lemma str_partition_absent:
  "sep \<notin> set s \<Longrightarrow> str_partition sep s = (s, [], [])"
  by (induction s) auto

lemma str_partition_trailing:
  "sep \<notin> set s \<Longrightarrow> str_partition sep (s @ [sep]) = (s, [sep], [])"
  by (induction s) auto

text \<open>The lookup of line 133 finds \<open>base_scope\<close> whatever the map was before.\<close>

lemma parse_scope_step_present:
  "(if filter_part = [] then parsed(base_scope \<mapsto> Scope_ALL)
    else if parsed base_scope = None then parsed(base_scope \<mapsto> Filtered Map.empty)
    else parsed) base_scope \<noteq> None"
  by auto

lemma parse_scope_step_keeps_ALL:
  "parsed n = Some Scope_ALL \<Longrightarrow> parse_scope_step parsed scope n = Some Scope_ALL"
  by (auto simp: parse_scope_step_def Let_def split: prod.splits option.splits scope_grant.splits)

lemma parse_scope_step_unfiltered:
  "unfiltered_grant n scope \<Longrightarrow> parse_scope_step parsed scope n = Some Scope_ALL"
  by (auto simp: parse_scope_step_def unfiltered_grant_def Let_def split: prod.splits)

lemma foldl_parse_keeps_ALL:
  "parsed n = Some Scope_ALL \<Longrightarrow> foldl parse_scope_step parsed xs n = Some Scope_ALL"
  by (induction xs arbitrary: parsed) (simp_all add: parse_scope_step_keeps_ALL)

lemma parse_scopes_unfiltered:
  assumes "g \<in> set scope_list" and "unfiltered_grant n g"
  shows "parse_scopes scope_list n = Some Scope_ALL"
proof -
  from assms(1) obtain ys zs where split: "scope_list = ys @ g # zs"
    by (auto simp: in_set_conv_decomp)
  have "parse_scope_step (foldl parse_scope_step Map.empty ys) g n = Some Scope_ALL"
    by (rule parse_scope_step_unfiltered [OF assms(2)])
  then show ?thesis
    by (simp add: parse_scopes_def split foldl_parse_keeps_ALL)
qed

lemma parse_scopes_merges_values:
  "parse_scopes [''s!k=v1'', ''s!k=v2''] = [''s'' \<mapsto> Filtered [''k'' \<mapsto> [''v1'', ''v2'']]]"
  by (simp add: parse_scopes_def parse_scope_step_def)

text \<open>
  Claim C4. Whenever some grant string of the input list has the name \<open>n\<close> before its
  first \<open>!\<close> and nothing after it, the parsed map sends \<open>n\<close> to \<open>Scope_ALL\<close>,
  wherever filtered grants for \<open>n\<close> stand in the list; and both \<open>[a!x=1, a]\<close> and
  \<open>[a, a!x=1]\<close> parse to the map with the single entry \<open>a \<mapsto> Scope_ALL\<close>.
\<close>

theorem parse_scopes_unrestricted_wins:
  "(\<forall>scope_list n. (\<exists>g \<in> set scope_list. unfiltered_grant n g) \<longrightarrow>
       parse_scopes scope_list n = Some Scope_ALL) \<and>
   parse_scopes [''a!x=1'', ''a''] = [''a'' \<mapsto> Scope_ALL] \<and>
   parse_scopes [''a'', ''a!x=1''] = [''a'' \<mapsto> Scope_ALL]"
proof (intro conjI allI impI)
  fix scope_list n
  assume "\<exists>g \<in> set scope_list. unfiltered_grant n g"
  then show "parse_scopes scope_list n = Some Scope_ALL"
    by (blast intro: parse_scopes_unfiltered)
next
  show "parse_scopes [''a!x=1'', ''a''] = [''a'' \<mapsto> Scope_ALL]"
    by (simp add: parse_scopes_def parse_scope_step_def)
next
  show "parse_scopes [''a'', ''a!x=1''] = [''a'' \<mapsto> Scope_ALL]"
    by (simp add: parse_scopes_def parse_scope_step_def)
qed

theorem parse_scopes_unrestricted_wins_witness:
  "unfiltered_grant ''a'' ''a'' \<and>
   parse_scopes [''b!k=v'', ''a!x=1'', ''a'', ''a!y=2''] ''a'' = Some Scope_ALL \<and>
   parse_scopes [''b!k=v'', ''a!x=1'', ''a'', ''a!y=2''] ''b'' =
     Some (Filtered [''k'' \<mapsto> [''v'']])"
proof -
  have u: "unfiltered_grant ''a'' ''a''"
    by (simp add: unfiltered_grant_def)
  then have "\<exists>g \<in> set [''b!k=v'', ''a!x=1'', ''a'', ''a!y=2'']. unfiltered_grant ''a'' g"
    by simp
  with parse_scopes_unrestricted_wins
  have "parse_scopes [''b!k=v'', ''a!x=1'', ''a'', ''a!y=2''] ''a'' = Some Scope_ALL"
    by blast
  moreover have "parse_scopes [''b!k=v'', ''a!x=1'', ''a'', ''a!y=2''] ''b'' =
      Some (Filtered [''k'' \<mapsto> [''v'']])"
    by (simp add: parse_scopes_def parse_scope_step_def)
  ultimately show ?thesis using u by simp
qed

text \<open>
  Claim C10. A grant string made of a name \<open>s\<close> (no \<open>!\<close> in it) and one trailing
  \<open>!\<close> is parsed as the bare name is: the step stores \<open>Scope_ALL\<close> under \<open>s\<close>, it
  is the step of the bare name, so the two strings can replace each other anywhere in an
  input list, and the string alone parses to the single entry \<open>s \<mapsto> Scope_ALL\<close>.
\<close>

theorem parse_scopes_trailing_bang:
  assumes "CHR ''!'' \<notin> set s"
  shows "parse_scope_step parsed (s @ ''!'') = parsed(s \<mapsto> Scope_ALL) \<and>
         parse_scope_step parsed (s @ ''!'') = parse_scope_step parsed s \<and>
         parse_scopes (pre @ [s @ ''!''] @ post) = parse_scopes (pre @ [s] @ post) \<and>
         parse_scopes [s @ ''!''] = [s \<mapsto> Scope_ALL]"
proof -
  have a: "parse_scope_step p (s @ ''!'') = p(s \<mapsto> Scope_ALL)" for p
    using str_partition_trailing [OF assms] by (simp add: parse_scope_step_def)
  have b: "parse_scope_step p s = p(s \<mapsto> Scope_ALL)" for p
    using str_partition_absent [OF assms] by (simp add: parse_scope_step_def)
  show ?thesis
    by (simp add: a b parse_scopes_def)
qed

theorem parse_scopes_trailing_bang_witness:
  "CHR ''!'' \<notin> set ''s'' \<and>
   parse_scopes [''s!''] = [''s'' \<mapsto> Scope_ALL] \<and>
   parse_scopes [''s!k=v'', ''s!'', ''t!k=w''] = parse_scopes [''s!k=v'', ''s'', ''t!k=w'']"
proof -
  have h: "CHR ''!'' \<notin> set ''s''" by simp
  show ?thesis
    using h parse_scopes_trailing_bang [OF h, of Map.empty "[''s!k=v'']" "[''t!k=w'']"]
    by simp
qed

section \<open>The resolver\<close>

text \<open>
  Claim C3. For a token, the resolved set is the intersection of the token's grants with
  the owner's grants, the token's grants being first united with the owner's exactly when
  they contain \<open>all\<close>. So the result lies within the owner's grants, and it is empty
  when \<open>all\<close> is absent and the two sets of grants are disjoint.
\<close>

theorem get_scopes_for_token:
  "fst (get_scopes_for roles (Some (APIToken t u s))) =
     (if ''all'' \<in> roles (Some (APIToken t u s))
      then roles (Some (APIToken t u s)) \<union> roles (token_owner u s)
      else roles (Some (APIToken t u s))) \<inter> roles (token_owner u s) \<and>
   fst (get_scopes_for roles (Some (APIToken t u s))) \<subseteq> roles (token_owner u s) \<and>
   (''all'' \<notin> roles (Some (APIToken t u s)) \<and>
    roles (Some (APIToken t u s)) \<inter> roles (token_owner u s) = {} \<longrightarrow>
    fst (get_scopes_for roles (Some (APIToken t u s))) = {})"
  by (auto simp: get_scopes_for_def Let_def)

theorem get_scopes_for_token_witness:
  "''all'' \<notin> example_roles (Some (APIToken ''other'' (Some ''alice'') None)) \<and>
   example_roles (Some (APIToken ''other'' (Some ''alice'') None)) \<inter>
     example_roles (token_owner (Some ''alice'') None) = {} \<and>
   fst (get_scopes_for example_roles (Some (APIToken ''other'' (Some ''alice'') None))) = {} \<and>
   fst (get_scopes_for example_roles (Some (APIToken ''reader'' (Some ''alice'') None))) =
     {''read:users''} \<and>
   fst (get_scopes_for example_roles (Some (APIToken ''inherit'' None (Some ''svc'')))) =
     {''services''}"
proof -
  have a: "''all'' \<notin> example_roles (Some (APIToken ''other'' (Some ''alice'') None))"
    by (simp add: example_roles_def)
  have b: "example_roles (Some (APIToken ''other'' (Some ''alice'') None)) \<inter>
     example_roles (token_owner (Some ''alice'') None) = {}"
    by (simp add: example_roles_def)
  have c: "fst (get_scopes_for example_roles (Some (APIToken ''other'' (Some ''alice'') None))) = {}"
    using a b get_scopes_for_token [of example_roles "''other''" "Some ''alice''" None] by blast
  have d: "fst (get_scopes_for example_roles (Some (APIToken ''reader'' (Some ''alice'') None))) =
     {''read:users''}"
    using get_scopes_for_token [of example_roles "''reader''" "Some ''alice''" None]
    by (auto simp: example_roles_def)
  have e: "fst (get_scopes_for example_roles (Some (APIToken ''inherit'' None (Some ''svc'')))) =
     {''services''}"
    using get_scopes_for_token [of example_roles "''inherit''" None "Some ''svc''"]
    by (auto simp: example_roles_def)
  from a b c d e show ?thesis by blast
qed

section \<open>The check\<close>

lemma check_scope_absent:
  "parsed_scopes h = Some parsed \<Longrightarrow> parsed req = None \<Longrightarrow> check_scope h req kwargs = Inr False"
  by (simp add: check_scope_def)

lemma check_scope_ALL:
  "parsed_scopes h = Some parsed \<Longrightarrow> parsed req = Some Scope_ALL \<Longrightarrow>
   check_scope h req kwargs = Inr True"
  by (simp add: check_scope_def)

lemma compose_server_Nil: "compose_server kwargs = [] \<longleftrightarrow> kwargs = []"
  by (auto simp: compose_server_def split: option.splits)

lemma parse_scopes_Nil: "parse_scopes [] = Map.empty"
  by (simp add: parse_scopes_def)

text \<open>
  The loop ends in one of two ways: it returns \<^verbatim>\<open>True\<close>, or it raises the 404.
\<close>

lemma check_filters_outcomes:
  "check_filters h sub kw = Inr True \<or> check_filters h sub kw = Inl not_found"
  by (induction h sub kw rule: check_filters.induct)
     (auto simp: check_user_in_expanded_scope_def needs_scope_expansion_def
           split: option.splits sum.splits)

lemma check_filters_not_False: "check_filters h sub kw \<noteq> Inr False"
  using check_filters_outcomes [of h sub kw] by auto

lemma check_filters_exhausted:
  "\<not> list_ex (entry_permits h sub) kw \<Longrightarrow> check_filters h sub kw = Inl not_found"
proof (induction h sub kw rule: check_filters.induct)
  case (1 h sub)
  show ?case by simp
next
  case (2 h sub filter_name filter_value rest)
  from "2.prems" have here: "\<not> entry_permits h sub (filter_name, filter_value)"
    and rest: "\<not> list_ex (entry_permits h sub) rest"
    by simp_all
  from here have no_match:
      "\<not> (case sub filter_name of Some vs \<Rightarrow> filter_value \<in> set vs | None \<Rightarrow> False)"
    by (auto simp: entry_permits_def filter_matches_def split: option.splits)
  from here have no_group: "\<not> group_expansion_permits h sub (filter_name, filter_value)"
    by (simp add: entry_permits_def)
  show ?case
  proof (cases "needs_scope_expansion filter_name filter_value sub")
    case False
    with no_match rest "2.IH"(2) show ?thesis
      by simp
  next
    case True
    then obtain group_names where g: "sub ''group'' = Some group_names"
      by (auto simp: needs_scope_expansion_def split: if_splits)
    from no_group True g
    have nt: "check_user_in_expanded_scope h filter_value group_names \<noteq> Inr True"
      by (simp add: group_expansion_permits_def)
    show ?thesis
    proof (cases "check_user_in_expanded_scope h filter_value group_names")
      case (Inl e)
      then have "e = not_found"
        by (auto simp: check_user_in_expanded_scope_def split: option.splits)
      with Inl no_match True g show ?thesis
        by simp
    next
      case (Inr b)
      with nt have "\<not> b" by auto
      with Inr no_match True g rest "2.IH"(1) show ?thesis
        by simp
    qed
  qed
qed

lemma check_scope_outcomes:
  assumes "parsed_scopes h = Some parsed"
  shows "check_scope h req kw = Inr True \<or> check_scope h req kw = Inr False \<or>
         check_scope h req kw = Inl not_found"
proof (cases "parsed req")
  case None
  with assms show ?thesis by (simp add: check_scope_def)
next
  case (Some grant)
  show ?thesis
  proof (cases grant)
    case Scope_ALL
    with Some assms show ?thesis by (simp add: check_scope_def)
  next
    case (Filtered sub)
    with Some assms check_filters_outcomes [of h sub "compose_server kw"] show ?thesis
      by (auto simp: check_scope_def)
  qed
qed

text \<open>
  Claim C9. The resolver returns the empty set for no principal. Whatever list lists
  that set is empty, so the map parsed from it has no scope, and every check against it,
  for every scope name and every context, returns \<^verbatim>\<open>False\<close>.
\<close>

theorem get_scopes_for_None:
  "fst (get_scopes_for roles None) = {} \<and>
   (\<forall>scope_list h req kwargs.
      set scope_list = fst (get_scopes_for roles None) \<and>
      parsed_scopes h = Some (parse_scopes scope_list) \<longrightarrow>
      check_scope h req kwargs = Inr False)"
proof (intro conjI allI impI)
  show e: "fst (get_scopes_for roles None) = {}"
    by (simp add: get_scopes_for_def)
  fix scope_list and h :: handler and req kwargs
  assume a: "set scope_list = fst (get_scopes_for roles None) \<and>
      parsed_scopes h = Some (parse_scopes scope_list)"
  with e have "scope_list = []" by simp
  with a show "check_scope h req kwargs = Inr False"
    by (simp add: check_scope_absent parse_scopes_Nil)
qed

theorem get_scopes_for_None_witness:
  "set [] = fst (get_scopes_for example_roles None) \<and>
   parsed_scopes (mock_api_handler [] []) = Some (parse_scopes []) \<and>
   check_scope (mock_api_handler [] []) ''users'' [(''user'', ''alice'')] = Inr False"
proof -
  have a: "set [] = fst (get_scopes_for example_roles None)"
    by (simp add: get_scopes_for_def)
  have b: "parsed_scopes (mock_api_handler [] []) = Some (parse_scopes [])"
    by (simp add: mock_api_handler_def)
  from a b get_scopes_for_None [of example_roles]
  have "check_scope (mock_api_handler [] []) ''users'' [(''user'', ''alice'')] = Inr False"
    by blast
  with a b show ?thesis by blast
qed

text \<open>
  Claim C7. When the required scope is in the handler's parsed scopes, with
  \<open>Scope_ALL\<close> or with filters, the check with no keyword argument returns
  \<^verbatim>\<open>True\<close>: it neither returns \<^verbatim>\<open>False\<close> nor raises.
\<close>

lemma parse_users_groups:
  "parse_scopes [''users'', ''groups!group=foo''] =
     [''users'' \<mapsto> Scope_ALL, ''groups'' \<mapsto> Filtered [''group'' \<mapsto> [''foo'']]]"
  by (simp add: parse_scopes_def parse_scope_step_def)

theorem check_scope_empty_context:
  assumes "parsed_scopes h = Some parsed" and "parsed s \<noteq> None"
  shows "check_scope h s [] = Inr True"
  using assms by (auto simp: check_scope_def compose_server_def split: scope_grant.splits)

theorem check_scope_empty_context_witness:
  "parsed_scopes (mock_api_handler [''users'', ''groups!group=foo''] []) =
     Some [''users'' \<mapsto> Scope_ALL, ''groups'' \<mapsto> Filtered [''group'' \<mapsto> [''foo'']]] \<and>
   check_scope (mock_api_handler [''users'', ''groups!group=foo''] []) ''users'' [] = Inr True \<and>
   check_scope (mock_api_handler [''users'', ''groups!group=foo''] []) ''groups'' [] = Inr True"
proof -
  let ?h = "mock_api_handler [''users'', ''groups!group=foo''] []"
  have p: "parsed_scopes ?h =
      Some [''users'' \<mapsto> Scope_ALL, ''groups'' \<mapsto> Filtered [''group'' \<mapsto> [''foo'']]]"
    by (simp add: mock_api_handler_def parse_users_groups)
  have a: "check_scope ?h ''users'' [] = Inr True"
    by (rule check_scope_empty_context [OF p]) simp
  have b: "check_scope ?h ''groups'' [] = Inr True"
    by (rule check_scope_empty_context [OF p]) simp
  from p a b show ?thesis by simp
qed

text \<open>
  Claim C5. The check returns \<^verbatim>\<open>False\<close> exactly when the required scope is not
  a key of the parsed scopes, whatever the context. When the scope is there with filters
  and the context is not empty, and no item of the context (after the rewriting of
  \<^verbatim>\<open>server\<close>) is permitted by a filter or by group expansion, the check raises the
  404 "resource not found".
\<close>

lemma parse_users_alice:
  "parse_scopes [''users!user=alice''] = [''users'' \<mapsto> Filtered [''user'' \<mapsto> [''alice'']]]"
  by (simp add: parse_scopes_def parse_scope_step_def)

theorem check_scope_deny_or_not_found:
  assumes "parsed_scopes h = Some parsed"
  shows "(check_scope h req kwargs = Inr False \<longleftrightarrow> parsed req = None) \<and>
         (\<forall>sub. parsed req = Some (Filtered sub) \<and> kwargs \<noteq> [] \<and>
                \<not> list_ex (entry_permits h sub) (compose_server kwargs) \<longrightarrow>
                check_scope h req kwargs = Inl not_found)"
proof (intro conjI allI impI)
  show "check_scope h req kwargs = Inr False \<longleftrightarrow> parsed req = None"
    using assms check_filters_not_False
    by (auto simp: check_scope_def split: option.splits scope_grant.splits)
next
  fix sub
  assume a: "parsed req = Some (Filtered sub) \<and> kwargs \<noteq> [] \<and>
             \<not> list_ex (entry_permits h sub) (compose_server kwargs)"
  then show "check_scope h req kwargs = Inl not_found"
    using assms by (simp add: check_scope_def compose_server_Nil check_filters_exhausted)
qed

theorem check_scope_deny_or_not_found_witness:
  "parsed_scopes (mock_api_handler [''users!user=alice''] []) =
     Some [''users'' \<mapsto> Filtered [''user'' \<mapsto> [''alice'']]] \<and>
   [(''user'', ''bob'')] \<noteq> [] \<and>
   \<not> list_ex (entry_permits (mock_api_handler [''users!user=alice''] []) [''user'' \<mapsto> [''alice'']])
       (compose_server [(''user'', ''bob'')]) \<and>
   check_scope (mock_api_handler [''users!user=alice''] []) ''users'' [(''user'', ''bob'')] =
     Inl not_found \<and>
   check_scope (mock_api_handler [''users!user=alice''] []) ''groups'' [(''user'', ''bob'')] =
     Inr False"
proof -
  let ?h = "mock_api_handler [''users!user=alice''] []"
  let ?parsed = "[''users'' \<mapsto> Filtered [''user'' \<mapsto> [''alice'']]]"
  have p: "parsed_scopes ?h = Some ?parsed"
    by (simp add: mock_api_handler_def parse_users_alice)
  have n: "\<not> list_ex (entry_permits ?h [''user'' \<mapsto> [''alice'']]) (compose_server [(''user'', ''bob'')])"
    by (simp add: compose_server_def entry_permits_def filter_matches_def
          group_expansion_permits_def needs_scope_expansion_def)
  have a: "check_scope ?h ''users'' [(''user'', ''bob'')] = Inl not_found"
    using check_scope_deny_or_not_found [OF p, of "''users''" "[(''user'', ''bob'')]"] n by simp
  have b: "check_scope ?h ''groups'' [(''user'', ''bob'')] = Inr False"
    using check_scope_deny_or_not_found [OF p, of "''groups''" "[(''user'', ''bob'')]"] by simp
  from p n a b show ?thesis by simp
qed






section \<open>The keyword arguments of the check\<close>

lemma check_filters_no_group:
  "sub ''group'' = None \<Longrightarrow>
   check_filters h sub kw = (if list_ex (filter_matches sub) kw then Inr True else Inl not_found)"
  by (induction kw) (auto simp: needs_scope_expansion_def filter_matches_def split: option.splits)

lemma list_ex_alist:
  "distinct (map fst kw) \<Longrightarrow> list_ex P kw \<longleftrightarrow> (\<exists>k v. map_of kw k = Some v \<and> P (k, v))"
  by (auto simp: list_ex_iff)

lemma build_fold_distinct:
  "distinct (map fst acc) \<Longrightarrow>
   distinct (map fst (foldl (\<lambda>s_kwargs resource.
              (case arguments (resource @ ''_name'') of
                 Some resource_value \<Rightarrow> AList.update resource resource_value s_kwargs
               | None \<Rightarrow> s_kwargs)) acc resources))"
  by (induction resources arbitrary: acc) (auto simp: distinct_update split: option.splits)

lemma build_fold_map_of:
  "map_of (foldl (\<lambda>s_kwargs resource.
              (case arguments (resource @ ''_name'') of
                 Some resource_value \<Rightarrow> AList.update resource resource_value s_kwargs
               | None \<Rightarrow> s_kwargs)) acc resources) k =
   (if k \<in> set resources
    then (case arguments (k @ ''_name'') of Some v \<Rightarrow> Some v | None \<Rightarrow> map_of acc k)
    else map_of acc k)"
  by (induction resources arbitrary: acc) (auto simp: update_conv' split: option.splits)

lemma build_s_kwargs_distinct: "distinct (map fst (build_s_kwargs resources arguments))"
  unfolding build_s_kwargs_def by (rule build_fold_distinct) simp

lemma build_s_kwargs_map_of:
  "map_of (build_s_kwargs resources arguments) k =
     (if k \<in> set resources then arguments (k @ ''_name'') else None)"
  unfolding build_s_kwargs_def by (simp add: build_fold_map_of split: option.splits)

lemma compose_server_distinct:
  "distinct (map fst kwargs) \<Longrightarrow> distinct (map fst (compose_server kwargs))"
  by (auto simp: compose_server_def distinct_update split: option.splits)

lemma compose_server_map_of:
  "map_of (compose_server kwargs) =
     (case (map_of kwargs ''user'', map_of kwargs ''server'') of
        (Some u, Some s) \<Rightarrow> (map_of kwargs)(''server'' \<mapsto> u @ ''/'' @ s)
      | other \<Rightarrow> map_of kwargs)"
  by (auto simp: compose_server_def update_conv' split: option.splits)

lemma user_name_key: "k @ ''_name'' = ''user_name'' \<longleftrightarrow> k = ''user''"
proof -
  have "''user_name'' = ''user'' @ ''_name''" by simp
  then show ?thesis by (simp only: append_same_eq)
qed

lemma server_name_key: "k @ ''_name'' = ''server_name'' \<longleftrightarrow> k = ''server''"
proof -
  have "''server_name'' = ''server'' @ ''_name''" by simp
  then show ?thesis by (simp only: append_same_eq)
qed

lemma user_server_context:
  assumes "''user'' \<in> set resources" and "''server'' \<in> set resources"
  shows "map_of (compose_server (build_s_kwargs resources [''user_name'' \<mapsto> u, ''server_name'' \<mapsto> s])) =
           [''user'' \<mapsto> u, ''server'' \<mapsto> u @ ''/'' @ s]"
proof -
  have m: "map_of (build_s_kwargs resources [''user_name'' \<mapsto> u, ''server_name'' \<mapsto> s]) =
             [''user'' \<mapsto> u, ''server'' \<mapsto> s]"
    using assms by (auto simp: build_s_kwargs_map_of fun_eq_iff user_name_key server_name_key)
  show ?thesis
    by (simp add: compose_server_map_of m)
qed

lemma parse_server_bar:
  "parse_scopes [''users:servers!server=bar''] =
     [''users:servers'' \<mapsto> Filtered [''server'' \<mapsto> [''bar'']]]"
  by (simp add: parse_scopes_def parse_scope_step_def)

lemma parse_server_u1_bar:
  "parse_scopes [''users:servers!server=u1/bar''] =
     [''users:servers'' \<mapsto> Filtered [''server'' \<mapsto> [''u1/bar'']]]"
  by (simp add: parse_scopes_def parse_scope_step_def)

lemma check_scope_server_filter:
  assumes "''user'' \<in> set resources" and "''server'' \<in> set resources"
    and "parsed_scopes h = Some [''users:servers'' \<mapsto> Filtered [''server'' \<mapsto> [x]]]"
  shows "check_scope h ''users:servers''
           (build_s_kwargs resources [''user_name'' \<mapsto> u, ''server_name'' \<mapsto> s]) =
         (if x = u @ ''/'' @ s then Inr True else Inl not_found)"
proof -
  let ?kw = "build_s_kwargs resources [''user_name'' \<mapsto> u, ''server_name'' \<mapsto> s]"
  have m: "map_of (compose_server ?kw) = [''user'' \<mapsto> u, ''server'' \<mapsto> u @ ''/'' @ s]"
    by (rule user_server_context [OF assms(1,2)])
  have d: "distinct (map fst (compose_server ?kw))"
    by (simp add: compose_server_distinct build_s_kwargs_distinct)
  have ne: "compose_server ?kw \<noteq> []"
  proof
    assume "compose_server ?kw = []"
    with m have "Map.empty ''user'' = [''user'' \<mapsto> u, ''server'' \<mapsto> u @ ''/'' @ s] ''user''"
      by (metis map_of.simps(1))
    then show False by simp
  qed
  have ex: "list_ex (filter_matches [''server'' \<mapsto> [x]]) (compose_server ?kw) \<longleftrightarrow> x = u @ ''/'' @ s"
    by (auto simp: list_ex_alist [OF d] m filter_matches_def split: if_splits)
  show ?thesis
    using assms(3) ne ex by (simp add: check_scope_def check_filters_no_group)
qed

section \<open>The decorator\<close>

lemma check_scopes_loop_no_scopes:
  "parsed_scopes h = Some Map.empty \<Longrightarrow> check_scopes_loop h kw scopes acc = Inr acc"
  by (induction scopes arbitrary: acc) (simp_all add: check_scope_def)

lemma check_scopes_loop_no_raise:
  "list_all (\<lambda>scope. check_scope h scope kw \<noteq> Inl not_found \<and> parsed_scopes h \<noteq> None) scopes \<Longrightarrow>
   check_scopes_loop h kw scopes acc =
     Inr (acc \<or> list_ex (\<lambda>scope. check_scope h scope kw = Inr True) scopes)"
proof (induction scopes arbitrary: acc)
  case Nil
  show ?case by simp
next
  case (Cons scope scopes)
  from Cons.prems obtain parsed where p: "parsed_scopes h = Some parsed" by auto
  from Cons.prems have nf: "check_scope h scope kw \<noteq> Inl not_found" by simp
  have "check_scope h scope kw = Inr True \<or> check_scope h scope kw = Inr False"
    using nf check_scope_outcomes [OF p, of scope kw] by blast
  with Cons show ?case by auto
qed

lemma load_scopes_cached: "raw_scopes self \<noteq> None \<Longrightarrow> load_scopes self = self"
  by (auto simp: load_scopes_def)

lemma load_scopes_idem: "load_scopes (load_scopes self) = load_scopes self"
  by (simp add: load_scopes_def)

text \<open>
  When no check raises, the loop of \<^verbatim>\<open>_auth_func\<close> is the disjunction of the
  checks, and the wrapped operation runs as soon as one scope permits; in particular
  when the first of two scopes is not held and the second is held with \<open>Scope_ALL\<close>.
\<close>

lemma auth_func_any_scope:
  assumes "raw_scopes self \<noteq> None" and "parsed_scopes self \<noteq> None"
    and "list_all (\<lambda>scope. check_scope self scope (build_s_kwargs resources arguments) \<noteq> Inl not_found) scopes"
    and "list_ex (\<lambda>scope. check_scope self scope (build_s_kwargs resources arguments) = Inr True) scopes"
  shows "auth_func scopes func resources self arguments = func self arguments"
proof -
  have "list_all (\<lambda>scope. check_scope self scope (build_s_kwargs resources arguments) \<noteq> Inl not_found
          \<and> parsed_scopes self \<noteq> None) scopes"
    using assms(2,3) by (simp add: list_all_iff)
  from check_scopes_loop_no_raise [OF this, of False] assms(4)
  have "check_scopes_loop self (build_s_kwargs resources arguments) scopes False = Inr True"
    by simp
  then show ?thesis
    using assms(1) by (simp add: auth_func_def load_scopes_cached)
qed

lemma auth_func_second_scope_only:
  assumes "raw_scopes self \<noteq> None" and "parsed_scopes self = Some parsed"
    and "parsed s1 = None" and "parsed s2 = Some Scope_ALL"
  shows "auth_func [s1, s2] func resources self arguments = func self arguments"
  using assms
  by (simp add: auth_func_def load_scopes_cached check_scope_absent check_scope_ALL)

lemma parse_s1_s2:
  "parse_scopes [''s1!user=alice'', ''s2''] =
     [''s1'' \<mapsto> Filtered [''user'' \<mapsto> [''alice'']], ''s2'' \<mapsto> Scope_ALL]"
  by (simp add: parse_scopes_def parse_scope_step_def)

lemma build_user_only:
  "build_s_kwargs resource_names [''user_name'' \<mapsto> u] = [(''user'', u)]"
  by (simp add: build_s_kwargs_def resource_names_def)

text \<open>
  Claim C1, at a request where it fails. The caller holds \<open>s1\<close> for the user
  \<open>alice\<close> only and \<open>s2\<close> without filter; the operation is wrapped with
  \<open>s1\<close> and \<open>s2\<close> and called with \<open>user_name = bob\<close>. The check for
  \<open>s2\<close> returns \<^verbatim>\<open>True\<close>, yet the call ends with the 404 that the check for
  \<open>s1\<close> raises, in either order of the two scopes, and the operation does not run.
\<close>

theorem auth_func_not_found_preempts:
  "check_scope (mock_api_handler [''s1!user=alice'', ''s2''] []) ''s2''
     (build_s_kwargs resource_names [''user_name'' \<mapsto> ''bob'']) = Inr True \<and>
   auth_func [''s1'', ''s2''] func resource_names
     (mock_api_handler [''s1!user=alice'', ''s2''] []) [''user_name'' \<mapsto> ''bob''] =
     (Inl not_found, mock_api_handler [''s1!user=alice'', ''s2''] []) \<and>
   auth_func [''s2'', ''s1''] func resource_names
     (mock_api_handler [''s1!user=alice'', ''s2''] []) [''user_name'' \<mapsto> ''bob''] =
     (Inl not_found, mock_api_handler [''s1!user=alice'', ''s2''] [])"
  by (simp add: auth_func_def load_scopes_def mock_api_handler_def parse_s1_s2 build_user_only
        check_scope_def compose_server_def needs_scope_expansion_def)

theorem auth_func_not_found_preempts_witness:
  "thing (mock_api_handler [''s1!user=alice'', ''s2''] []) [''user_name'' \<mapsto> ''bob''] =
     (Inr True, mock_api_handler [''s1!user=alice'', ''s2''] []) \<and>
   fst (auth_func [''s1'', ''s2''] thing resource_names
     (mock_api_handler [''s1!user=alice'', ''s2''] []) [''user_name'' \<mapsto> ''bob'']) =
     Inl not_found"
  using auth_func_not_found_preempts [of thing] by (simp add: thing_def)

text \<open>
  Claim C2 as stated, refuted. With the parsed scopes of the single grant
  \<open>users:servers!server=bar\<close> and the call bound with \<open>user_name = u1\<close> and
  \<open>server_name = bar\<close>, the check for \<open>users:servers\<close> does not return
  \<^verbatim>\<open>True\<close>.
\<close>

theorem bare_server_filter_refused:
  "check_scope (mock_api_handler [''users:servers!server=bar''] []) ''users:servers''
     (build_s_kwargs resource_names [''user_name'' \<mapsto> ''u1'', ''server_name'' \<mapsto> ''bar''])
   \<noteq> Inr True"
proof -
  have "check_scope (mock_api_handler [''users:servers!server=bar''] []) ''users:servers''
     (build_s_kwargs resource_names [''user_name'' \<mapsto> ''u1'', ''server_name'' \<mapsto> ''bar''])
     = Inl not_found"
    by (simp add: mock_api_handler_def parse_server_bar build_s_kwargs_def resource_names_def
          check_scope_def compose_server_def needs_scope_expansion_def)
  then show ?thesis by simp
qed

text \<open>
  Claim C2, amended. In whatever order the resource names are visited, that call is
  refused with the 404 "resource not found": the server value checked is the composite
  \<open>u1/bar\<close>, which the list \<open>[bar]\<close> of the grant does not contain. The same call
  is allowed, and the operation runs, when the grant is \<open>users:servers!server=u1/bar\<close>.
\<close>

theorem server_filter_composite:
  assumes "''user'' \<in> set resources" and "''server'' \<in> set resources"
    and "raw_scopes h \<noteq> None" and "raw_scopes h' \<noteq> None"
    and "parsed_scopes h = Some (parse_scopes [''users:servers!server=bar''])"
    and "parsed_scopes h' = Some (parse_scopes [''users:servers!server=u1/bar''])"
  shows "check_scope h ''users:servers''
           (build_s_kwargs resources [''user_name'' \<mapsto> ''u1'', ''server_name'' \<mapsto> ''bar'']) =
           Inl not_found \<and>
         auth_func [''users:servers''] func resources h
           [''user_name'' \<mapsto> ''u1'', ''server_name'' \<mapsto> ''bar''] = (Inl not_found, h) \<and>
         check_scope h' ''users:servers''
           (build_s_kwargs resources [''user_name'' \<mapsto> ''u1'', ''server_name'' \<mapsto> ''bar'']) =
           Inr True \<and>
         auth_func [''users:servers''] func resources h'
           [''user_name'' \<mapsto> ''u1'', ''server_name'' \<mapsto> ''bar''] =
           func h' [''user_name'' \<mapsto> ''u1'', ''server_name'' \<mapsto> ''bar'']"
proof -
  have a: "check_scope h ''users:servers''
           (build_s_kwargs resources [''user_name'' \<mapsto> ''u1'', ''server_name'' \<mapsto> ''bar'']) =
           Inl not_found"
    using check_scope_server_filter [OF assms(1,2), of h "''bar''" "''u1''" "''bar''"] assms(5)
    by (simp add: parse_server_bar)
  have b: "check_scope h' ''users:servers''
           (build_s_kwargs resources [''user_name'' \<mapsto> ''u1'', ''server_name'' \<mapsto> ''bar'']) =
           Inr True"
    using check_scope_server_filter [OF assms(1,2), of h' "''u1/bar''" "''u1''" "''bar''"] assms(6)
    by (simp add: parse_server_u1_bar)
  show ?thesis
    using a b assms(3,4) by (simp add: auth_func_def load_scopes_cached)
qed

theorem server_filter_composite_witness:
  "''user'' \<in> set (rev resource_names) \<and> ''server'' \<in> set (rev resource_names) \<and>
   raw_scopes (mock_api_handler [''users:servers!server=bar''] []) \<noteq> None \<and>
   raw_scopes (mock_api_handler [''users:servers!server=u1/bar''] []) \<noteq> None \<and>
   fst (auth_func [''users:servers''] thing (rev resource_names)
          (mock_api_handler [''users:servers!server=bar''] [])
          [''user_name'' \<mapsto> ''u1'', ''server_name'' \<mapsto> ''bar'']) = Inl not_found \<and>
   fst (auth_func [''users:servers''] thing (rev resource_names)
          (mock_api_handler [''users:servers!server=u1/bar''] [])
          [''user_name'' \<mapsto> ''u1'', ''server_name'' \<mapsto> ''bar'']) = Inr True"
proof -
  have r: "''user'' \<in> set (rev resource_names)" "''server'' \<in> set (rev resource_names)"
    by (simp_all add: resource_names_def)
  have s: "raw_scopes (mock_api_handler [''users:servers!server=bar''] []) \<noteq> None"
    "raw_scopes (mock_api_handler [''users:servers!server=u1/bar''] []) \<noteq> None"
    "parsed_scopes (mock_api_handler [''users:servers!server=bar''] []) =
       Some (parse_scopes [''users:servers!server=bar''])"
    "parsed_scopes (mock_api_handler [''users:servers!server=u1/bar''] []) =
       Some (parse_scopes [''users:servers!server=u1/bar''])"
    by (simp_all add: mock_api_handler_def)
  show ?thesis
    using r s server_filter_composite [OF r s, of thing] by (simp add: thing_def)
qed

text \<open>
  Claim C8 as stated, refuted. The handler has no scopes stored and the caller
  \<open>alice\<close> resolves to the grants \<open>users\<close> and \<open>read:users\<close>. After the
  call, the handler holds neither these grants nor their parse, in either order, and the
  call for \<open>users\<close> is refused with the 403.
\<close>

theorem auth_func_resolves_nothing:
  "fst (get_scopes_for example_roles (Some (User ''alice''))) = {''users'', ''read:users''} \<and>
   raw_scopes (snd (auth_func [''users''] thing resource_names fresh_handler Map.empty)) \<noteq>
     Some (fst (get_scopes_for example_roles (Some (User ''alice'')))) \<and>
   parsed_scopes (snd (auth_func [''users''] thing resource_names fresh_handler Map.empty)) \<noteq>
     Some (parse_scopes [''users'', ''read:users'']) \<and>
   parsed_scopes (snd (auth_func [''users''] thing resource_names fresh_handler Map.empty)) \<noteq>
     Some (parse_scopes [''read:users'', ''users'']) \<and>
   fst (auth_func [''users''] thing resource_names fresh_handler Map.empty) =
     Inl (not_authorized [''users''])"
proof -
  have p1: "parse_scopes [''users'', ''read:users''] ''users'' = Some Scope_ALL"
    by (simp add: parse_scopes_def parse_scope_step_def)
  have p2: "parse_scopes [''read:users'', ''users''] ''users'' = Some Scope_ALL"
    by (simp add: parse_scopes_def parse_scope_step_def)
  have e1: "Map.empty \<noteq> parse_scopes [''users'', ''read:users'']"
    using p1 by (metis option.distinct(1))
  have e2: "Map.empty \<noteq> parse_scopes [''read:users'', ''users'']"
    using p2 by (metis option.distinct(1))
  have g: "fst (get_scopes_for example_roles (Some (User ''alice''))) = {''users'', ''read:users''}"
    by (simp add: get_scopes_for_def example_roles_def)
  have a: "auth_func [''users''] thing resource_names fresh_handler Map.empty =
      (Inl (not_authorized [''users'']),
       fresh_handler\<lparr>raw_scopes := Some {}, parsed_scopes := Some Map.empty\<rparr>)"
    by (simp add: auth_func_def load_scopes_def fresh_handler_def build_s_kwargs_def
          resource_names_def check_scope_def)
  show ?thesis
    using e1 e2 by (simp add: a g)
qed

lemma parse_users_only: "parse_scopes [''users''] = [''users'' \<mapsto> Scope_ALL]"
  by (simp add: parse_scopes_def parse_scope_step_def)

text \<open>
  Claim C8, amended. When the handler has no \<^verbatim>\<open>raw_scopes\<close>, the wrapper resolves
  and parses nothing: it stores an empty \<^verbatim>\<open>raw_scopes\<close> and an empty
  \<^verbatim>\<open>parsed_scopes\<close> on the handler, every check of that call returns
  \<^verbatim>\<open>False\<close>, and a call on a handler with a request path is refused with the 403;
  a later call through the wrapper on the handler so left finds the same empty scopes and
  leaves them. When \<^verbatim>\<open>raw_scopes\<close> is there, the wrapper checks against the scopes
  stored on the handler and stores nothing: an exception of a check leaves the handler as it
  was, a successful check passes that very handler to the operation, and a refusal leaves
  the handler as it was (with the 403 when it has a request path).
\<close>

theorem auth_func_scope_cache:
  "(raw_scopes self = None \<longrightarrow>
      snd (auth_func scopes func resources self arguments) =
        self\<lparr>raw_scopes := Some {}, parsed_scopes := Some Map.empty\<rparr> \<and>
      check_scopes_loop (self\<lparr>raw_scopes := Some {}, parsed_scopes := Some Map.empty\<rparr>)
        (build_s_kwargs resources arguments) scopes False = Inr False \<and>
      (request_path self \<noteq> None \<longrightarrow>
         fst (auth_func scopes func resources self arguments) = Inl (not_authorized scopes)) \<and>
      snd (auth_func scopes2 func2 resources2
             (snd (auth_func scopes func resources self arguments)) arguments2) =
        snd (auth_func scopes func resources self arguments)) \<and>
   (raw_scopes self \<noteq> None \<longrightarrow>
      (\<forall>e. check_scopes_loop self (build_s_kwargs resources arguments) scopes False = Inl e \<longrightarrow>
           auth_func scopes func resources self arguments = (Inl e, self)) \<and>
      (check_scopes_loop self (build_s_kwargs resources arguments) scopes False = Inr True \<longrightarrow>
           auth_func scopes func resources self arguments = func self arguments) \<and>
      (check_scopes_loop self (build_s_kwargs resources arguments) scopes False = Inr False \<longrightarrow>
           snd (auth_func scopes func resources self arguments) = self \<and>
           (request_path self \<noteq> None \<longrightarrow>
              fst (auth_func scopes func resources self arguments) = Inl (not_authorized scopes))))"
proof (intro conjI impI allI)
  assume n: "raw_scopes self = None"
  let ?h1 = "self\<lparr>raw_scopes := Some {}, parsed_scopes := Some Map.empty\<rparr>"
  have l: "load_scopes self = ?h1"
    using n by (simp add: load_scopes_def)
  show c: "check_scopes_loop ?h1 (build_s_kwargs resources arguments) scopes False = Inr False"
    by (rule check_scopes_loop_no_scopes) simp
  show s: "snd (auth_func scopes func resources self arguments) = ?h1"
    by (simp add: auth_func_def Let_def l c split: option.splits)
  have l2: "load_scopes ?h1 = ?h1" by (simp add: load_scopes_def)
  have c2: "check_scopes_loop ?h1 (build_s_kwargs resources2 arguments2) scopes2 False = Inr False"
    by (rule check_scopes_loop_no_scopes) simp
  have "snd (auth_func scopes2 func2 resources2 ?h1 arguments2) = ?h1"
    by (simp add: auth_func_def Let_def l2 c2 split: option.splits)
  then show "snd (auth_func scopes2 func2 resources2
             (snd (auth_func scopes func resources self arguments)) arguments2) =
        snd (auth_func scopes func resources self arguments)"
    by (simp only: s)
  assume "request_path self \<noteq> None"
  then show "fst (auth_func scopes func resources self arguments) = Inl (not_authorized scopes)"
    by (auto simp: auth_func_def Let_def l c split: option.splits)
next
  fix e
  assume "raw_scopes self \<noteq> None"
    and "check_scopes_loop self (build_s_kwargs resources arguments) scopes False = Inl e"
  then show "auth_func scopes func resources self arguments = (Inl e, self)"
    by (simp add: auth_func_def load_scopes_cached)
next
  assume "raw_scopes self \<noteq> None"
    and "check_scopes_loop self (build_s_kwargs resources arguments) scopes False = Inr True"
  then show "auth_func scopes func resources self arguments = func self arguments"
    by (simp add: auth_func_def load_scopes_cached)
next
  assume "raw_scopes self \<noteq> None"
    and "check_scopes_loop self (build_s_kwargs resources arguments) scopes False = Inr False"
  then show "snd (auth_func scopes func resources self arguments) = self"
    by (simp add: auth_func_def load_scopes_cached split: option.splits)
next
  assume "raw_scopes self \<noteq> None"
    and "check_scopes_loop self (build_s_kwargs resources arguments) scopes False = Inr False"
    and "request_path self \<noteq> None"
  then show "fst (auth_func scopes func resources self arguments) = Inl (not_authorized scopes)"
    by (auto simp: auth_func_def load_scopes_cached split: option.splits)
qed

theorem auth_func_scope_cache_witness:
  "raw_scopes fresh_handler = None \<and> request_path fresh_handler \<noteq> None \<and>
   snd (auth_func [''users''] thing resource_names fresh_handler [''user_name'' \<mapsto> ''alice'']) =
     fresh_handler\<lparr>raw_scopes := Some {}, parsed_scopes := Some Map.empty\<rparr> \<and>
   fst (auth_func [''users''] thing resource_names fresh_handler [''user_name'' \<mapsto> ''alice'']) =
     Inl (not_authorized [''users'']) \<and>
   snd (auth_func [''groups''] thing (rev resource_names)
          (snd (auth_func [''users''] thing resource_names fresh_handler
                  [''user_name'' \<mapsto> ''alice'']))
          [''group_name'' \<mapsto> ''g'']) =
     fresh_handler\<lparr>raw_scopes := Some {}, parsed_scopes := Some Map.empty\<rparr> \<and>
   raw_scopes (mock_api_handler [''users''] []) \<noteq> None \<and>
   check_scopes_loop (mock_api_handler [''users''] [])
     (build_s_kwargs resource_names [''user_name'' \<mapsto> ''alice'']) [''users''] False = Inr True \<and>
   auth_func [''users''] thing resource_names (mock_api_handler [''users''] [])
     [''user_name'' \<mapsto> ''alice''] = (Inr True, mock_api_handler [''users''] []) \<and>
   check_scopes_loop (mock_api_handler [''users''] [])
     (build_s_kwargs resource_names [''user_name'' \<mapsto> ''alice'']) [''groups''] False = Inr False \<and>
   auth_func [''groups''] thing resource_names (mock_api_handler [''users''] [])
     [''user_name'' \<mapsto> ''alice''] =
     (Inl (not_authorized [''groups'']), mock_api_handler [''users''] [])"
proof -
  let ?args = "[''user_name'' \<mapsto> ''alice'']"
  let ?m = "mock_api_handler [''users''] []"
  let ?e = "fresh_handler\<lparr>raw_scopes := Some {}, parsed_scopes := Some Map.empty\<rparr>"
  have n: "raw_scopes fresh_handler = None" and r: "request_path fresh_handler \<noteq> None"
    by (simp_all add: fresh_handler_def)
  note fresh = auth_func_scope_cache [of fresh_handler "[''users'']" thing resource_names ?args
      "[''groups'']" thing "rev resource_names" "[''group_name'' \<mapsto> ''g'']"]
  from fresh n
  have a: "snd (auth_func [''users''] thing resource_names fresh_handler ?args) = ?e"
    by blast
  from fresh n r
  have b: "fst (auth_func [''users''] thing resource_names fresh_handler ?args) =
      Inl (not_authorized [''users''])"
    by blast
  from fresh n
  have "snd (auth_func [''groups''] thing (rev resource_names)
          (snd (auth_func [''users''] thing resource_names fresh_handler ?args))
          [''group_name'' \<mapsto> ''g'']) =
        snd (auth_func [''users''] thing resource_names fresh_handler ?args)"
    by blast
  then have c: "snd (auth_func [''groups''] thing (rev resource_names)
          (snd (auth_func [''users''] thing resource_names fresh_handler ?args))
          [''group_name'' \<mapsto> ''g'']) = ?e"
    by (simp only: a)
  have m: "raw_scopes ?m \<noteq> None" and mr: "request_path ?m \<noteq> None"
    by (simp_all add: mock_api_handler_def)
  have t: "check_scopes_loop ?m (build_s_kwargs resource_names ?args) [''users''] False = Inr True"
    by (simp add: mock_api_handler_def parse_users_only check_scope_def)
  have f: "check_scopes_loop ?m (build_s_kwargs resource_names ?args) [''groups''] False = Inr False"
    by (simp add: mock_api_handler_def parse_users_only check_scope_def)
  from auth_func_scope_cache [of ?m "[''users'']" thing resource_names ?args] m t
  have "auth_func [''users''] thing resource_names ?m ?args = thing ?m ?args"
    by blast
  then have d: "auth_func [''users''] thing resource_names ?m ?args = (Inr True, ?m)"
    by (simp add: thing_def)
  from auth_func_scope_cache [of ?m "[''groups'']" thing resource_names ?args] m mr f
  have "snd (auth_func [''groups''] thing resource_names ?m ?args) = ?m"
    and "fst (auth_func [''groups''] thing resource_names ?m ?args) = Inl (not_authorized [''groups''])"
    by blast+
  then have g: "auth_func [''groups''] thing resource_names ?m ?args =
      (Inl (not_authorized [''groups'']), ?m)"
    by (metis prod.collapse)
  from n r a b c m t d f g show ?thesis by blast
qed

end
